theory Spec2Isabelle
  imports Main
begin

section \<open>Requested identifiers\<close>

text \<open>
  \<^verbatim>\<open>dep.split('@')\<close>: the identifier is cut at every \<open>@\<close>; the result always
  has at least one segment (the empty string gives one empty segment).
\<close>

fun split_on :: "char \<Rightarrow> string \<Rightarrow> string list" where
  "split_on c [] = [[]]"
| "split_on c (x # xs) =
     (if x = c then [] # split_on c xs
      else (case split_on c xs of
              [] \<Rightarrow> [[x]]
            | s # ss \<Rightarrow> (x # s) # ss))"

text \<open>
  \<^verbatim>\<open>const [name, version] = dep.split('@'); return [name, version];\<close>
  The destructuring takes the first two segments; \<open>version\<close> is \<open>undefined\<close>
  (here \<open>None\<close>) when there is only one.
\<close>

definition parseSpec :: "string \<Rightarrow> string \<times> string option" where
  "parseSpec dep =
     (case split_on (CHR ''@'') dep of
        [] \<Rightarrow> ([], None)
      | [name] \<Rightarrow> (name, None)
      | name # version # _ \<Rightarrow> (name, Some version))"

section \<open>Manifests and JavaScript objects\<close>

text \<open>
  A parsed JSON object whose values are strings: its own properties in enumeration
  order. Lookups go through \<open>map_of\<close>.
\<close>

type_synonym jsobj = "(string \<times> string) list"

text \<open>
  A \<^verbatim>\<open>package.json\<close> as far as the program reads it: three optional groups
  (\<open>None\<close> is an absent key, \<^verbatim>\<open>undefined\<close>).
\<close>

record manifest =
  dependencies :: "jsobj option"
  devDependencies :: "jsobj option"
  peerDependencies :: "jsobj option"

definition spread :: "jsobj option \<Rightarrow> (string \<rightharpoonup> string)" where
  "spread g = (case g of None \<Rightarrow> Map.empty | Some kvs \<Rightarrow> map_of kvs)"

text \<open>
  \<^verbatim>\<open>const dependencies = { ...packageJson.dependencies,
      ...packageJson.devDependencies, ...packageJson.peerDependencies };\<close>
  An object literal with spreads copies the own properties of each operand in turn, a
  later copy assigning over an earlier one: \<open>++\<close> on maps, which prefers its right
  operand. Only lookups of own properties are made on the result.
\<close>

definition mergedDependencies :: "manifest \<Rightarrow> (string \<rightharpoonup> string)" where
  "mergedDependencies packageJson =
     spread (dependencies packageJson) ++ spread (devDependencies packageJson)
       ++ spread (peerDependencies packageJson)"

text \<open>
  The names every plain object inherits from \<^verbatim>\<open>Object.prototype\<close>; a property read
  without \<^verbatim>\<open>hasOwnProperty\<close> finds a function (or the prototype) under them.
\<close>

definition object_prototype_keys :: "string list" where
  "object_prototype_keys =
     [''constructor'', ''__defineGetter__'', ''__defineSetter__'', ''hasOwnProperty'',
      ''__lookupGetter__'', ''__lookupSetter__'', ''isPrototypeOf'',
      ''propertyIsEnumerable'', ''toString'', ''valueOf'', ''__proto__'',
      ''toLocaleString'']"

text \<open>
  Truthiness of \<^verbatim>\<open>obj?.[key]\<close>: an absent object gives \<^verbatim>\<open>undefined\<close>, an own
  string is truthy unless empty, an inherited member is truthy.
\<close>

definition prop_truthy :: "jsobj option \<Rightarrow> string \<Rightarrow> bool" where
  "prop_truthy obj k =
     (case obj of
        None \<Rightarrow> False
      | Some kvs \<Rightarrow>
          (case map_of kvs k of
             Some v \<Rightarrow> v \<noteq> []
           | None \<Rightarrow> k \<in> set object_prototype_keys))"

text \<open>
  \<^verbatim>\<open>obj[key] = value\<close>: an own property keeps its place and takes the value, a new
  one is added last; assigning a string to an inherited \<^verbatim>\<open>__proto__\<close> does nothing.
\<close>

fun assign_own :: "jsobj \<Rightarrow> string \<Rightarrow> string \<Rightarrow> jsobj" where
  "assign_own [] k v = [(k, v)]"
| "assign_own ((k', v') # kvs) k v =
     (if k' = k then (k, v) # kvs else (k', v') # assign_own kvs k v)"

definition obj_assign :: "jsobj \<Rightarrow> string \<Rightarrow> string \<Rightarrow> jsobj" where
  "obj_assign obj k v =
     (if map_of obj k = None \<and> k = ''__proto__'' then obj else assign_own obj k v)"

text \<open>Truthiness of an optional string (\<^verbatim>\<open>undefined\<close> and \<^verbatim>\<open>''\<close> are falsy).\<close>

definition truthy :: "string option \<Rightarrow> bool" where
  "truthy v = (case v of None \<Rightarrow> False | Some s \<Rightarrow> s \<noteq> [])"

text \<open>
  \<^verbatim>\<open>new Map(dependencyNames.map(...))\<close>: a key set again keeps its first position and
  takes the last value.
\<close>

fun map_set :: "('k \<times> 'v) list \<Rightarrow> 'k \<Rightarrow> 'v \<Rightarrow> ('k \<times> 'v) list" where
  "map_set [] k v = [(k, v)]"
| "map_set ((k', v') # m) k v =
     (if k' = k then (k, v) # m else (k', v') # map_set m k v)"

definition dependencySpecs :: "string list \<Rightarrow> (string \<times> string option) list" where
  "dependencySpecs dependencyNames =
     foldl (\<lambda>m dep. map_set m (fst (parseSpec dep)) (snd (parseSpec dep))) [] dependencyNames"

section \<open>The platform and the file system\<close>

datatype js_error = TypeError

datatype fs_error = EXDEV | OtherError

datatype copy_outcome = CopyDone | CopyThrows fs_error bool

datatype spawn_outcome = Close int | SpawnError

datatype package_manager = Npm | Yarn | Pnpm

text \<open>
  What the program takes from Node, its libraries and the process, none of it code of
  the repository: path arithmetic, the \<^verbatim>\<open>semver\<close> package, the result of the glob
  crawl, how long the asynchronous reads of a batch take, and how each file-system call
  and the subprocess end. An outcome
  \<open>CopyThrows e partial\<close> is a copy that throws \<open>e\<close>, leaving (\<open>partial\<close>) or not
  leaving the target behind.
\<close>

record env =
  localPackageJsonPath :: string
    \<comment> \<open>\<^verbatim>\<open>path.join(process.cwd(), 'package.json')\<close>\<close>
  localModule :: "string \<Rightarrow> string"
    \<comment> \<open>\<^verbatim>\<open>path.join(localNodeModules, name)\<close>\<close>
  siblingModule :: "string \<Rightarrow> string \<Rightarrow> string"
    \<comment> \<open>\<^verbatim>\<open>path.join(path.dirname(packageJsonPath), 'node_modules', depName)\<close>\<close>
  sourceOutsideTarget :: "string \<Rightarrow> string \<Rightarrow> bool"
    \<comment> \<open>\<^verbatim>\<open>relativePath.startsWith('..') || path.isAbsolute(relativePath)\<close> for
        \<^verbatim>\<open>path.relative(targetPath, dep.path)\<close>, as a function of target and source\<close>
  semver_clean :: "string \<Rightarrow> string option"
    \<comment> \<open>\<^verbatim>\<open>semver.clean\<close>; \<open>None\<close> is \<^verbatim>\<open>null\<close>\<close>
  semver_compare :: "string \<Rightarrow> string \<Rightarrow> int option"
    \<comment> \<open>\<^verbatim>\<open>semver.compare\<close>; \<open>None\<close> when it throws on an invalid version\<close>
  packageJsonPaths :: "string list"
    \<comment> \<open>the manifests the crawl of the roots returns, flattened\<close>
  delay :: "string \<Rightarrow> string \<Rightarrow> nat"
    \<comment> \<open>for a manifest and a name: the time the manifest's own loop takes to reach its
        push for that name, counted from its previous push or from the start of the batch\<close>
  fs_remove :: "string \<Rightarrow> fs_error option"
  fs_copy :: "string \<Rightarrow> string \<Rightarrow> copy_outcome"
  writeJson_fails :: bool
  spawn :: "package_manager \<Rightarrow> string list \<Rightarrow> spawn_outcome"

text \<open>
  The file system as the program observes and changes it: what \<^verbatim>\<open>fs.readJson\<close>
  returns for a path (\<open>None\<close> when it throws), and the paths that exist.
\<close>

record world =
  readJson :: "string \<Rightarrow> manifest option"
  existing :: "string set"

section \<open>Discovery: getDependencyPaths\<close>

record found =
  dependency :: string
  path :: string
  version :: string

text \<open>An element of a \<^verbatim>\<open>seenDeps\<close> array: \<^verbatim>\<open>{ version, path }\<close>.\<close>

type_synonym seen_version = "string \<times> string"

type_synonym seen_deps = "(string \<times> seen_version list) list"

text \<open>
  \<^verbatim>\<open>packageJsonPath.match(/node_modules.*node_modules/)\<close>: two occurrences of
  \<^verbatim>\<open>node_modules\<close>, the second starting after the first ends, with no line terminator
  between them. (The terminators U+2028 and U+2029 lie outside the 8-bit characters of
  \<open>string\<close>.)
\<close>

definition starts_with :: "string \<Rightarrow> string \<Rightarrow> bool" where
  "starts_with p s = (take (length p) s = p)"

fun contains :: "string \<Rightarrow> string \<Rightarrow> bool" where
  "contains p [] = (p = [])"
| "contains p (x # xs) = (starts_with p (x # xs) \<or> contains p xs)"

definition line_terminator :: "char \<Rightarrow> bool" where
  "line_terminator c = (c = CHR 0x0A \<or> c = CHR 0x0D)"

fun nested_node_modules :: "string \<Rightarrow> bool" where
  "nested_node_modules [] = False"
| "nested_node_modules (x # xs) =
     ((starts_with ''node_modules'' (x # xs) \<and>
       contains ''node_modules''
         (takeWhile (\<lambda>c. \<not> line_terminator c) (drop (length ''node_modules'') (x # xs))))
      \<or> nested_node_modules xs)"

text \<open>
  \<^verbatim>\<open>foundVersion.replace(/[\^~]/, '')\<close>: the regular expression is not global and not
  anchored, so the first \<open>^\<close> or \<open>~\<close> of the string, wherever it stands, is removed.
\<close>

fun remove_range_marker :: "string \<Rightarrow> string" where
  "remove_range_marker [] = []"
| "remove_range_marker (c # cs) =
     (if c = CHR ''^'' \<or> c = CHR ''~'' then cs else c # remove_range_marker cs)"

text \<open>
  \<^verbatim>\<open>if (!seenDeps.has(depName)) seenDeps.set(depName, []);
  seenDeps.get(depName).push({ version, path });\<close>
\<close>

fun seen_push :: "seen_deps \<Rightarrow> string \<Rightarrow> seen_version \<Rightarrow> seen_deps" where
  "seen_push [] depName v = [(depName, [v])]"
| "seen_push ((n, vs) # seen) depName v =
     (if n = depName then (n, vs @ [v]) # seen else (n, vs) # seen_push seen depName v)"

text \<open>
  The acceptance test of a declared version against a requested one:
  \<^verbatim>\<open>foundVersion && Object.prototype.hasOwnProperty.call(dependencies, depName) &&
  (!depVersion || foundVersion === depVersion)\<close>, on the result of looking the name up
  among the own properties of the merged object.
\<close>

definition accepts :: "string option \<Rightarrow> string option \<Rightarrow> bool" where
  "accepts depVersion found =
     (case found of
        None \<Rightarrow> False
      | Some foundVersion \<Rightarrow>
          foundVersion \<noteq> [] \<and> (\<not> truthy depVersion \<or> Some foundVersion = depVersion))"

text \<open>
  The loop \<^verbatim>\<open>for (const [depName, depVersion] of depsToSearch)\<close> over one manifest.
  A requested version that matches ends the loop at once (\<^verbatim>\<open>return matches\<close>); a
  missing sibling directory (\<^verbatim>\<open>fs.access\<close> throws) goes on with the next spec.
\<close>

fun matchSpecs ::
  "env \<Rightarrow> world \<Rightarrow> (string \<rightharpoonup> string) \<Rightarrow> string \<Rightarrow> seen_deps \<Rightarrow>
     (string \<times> string option) list \<Rightarrow> found list \<times> seen_deps" where
  "matchSpecs e w deps packageJsonPath seenDeps [] = ([], seenDeps)"
| "matchSpecs e w deps packageJsonPath seenDeps ((depName, depVersion) # rest) =
     (if accepts depVersion (deps depName) then
        (let foundVersion = the (deps depName);
             nodeModulesPath = siblingModule e packageJsonPath depName
         in if nodeModulesPath \<in> existing w then
              (if \<not> truthy depVersion then
                 matchSpecs e w deps packageJsonPath
                   (seen_push seenDeps depName
                      (remove_range_marker foundVersion, nodeModulesPath)) rest
               else
                 ([\<lparr>dependency = depName, path = nodeModulesPath, version = foundVersion\<rparr>],
                  seenDeps))
            else matchSpecs e w deps packageJsonPath seenDeps rest)
      else matchSpecs e w deps packageJsonPath seenDeps rest)"

text \<open>One element of a batch: the body of \<^verbatim>\<open>batch.map(async packageJsonPath => ...)\<close>.\<close>

definition processManifest ::
  "env \<Rightarrow> world \<Rightarrow> (string \<times> string option) list \<Rightarrow> seen_deps \<Rightarrow> string \<Rightarrow>
     found list \<times> seen_deps" where
  "processManifest e w depsToSearch seenDeps packageJsonPath =
     (if nested_node_modules packageJsonPath then ([], seenDeps)
      else (case readJson w packageJsonPath of
              None \<Rightarrow> ([], seenDeps)
            | Some packageJson \<Rightarrow>
                matchSpecs e w (mergedDependencies packageJson) packageJsonPath seenDeps
                  depsToSearch))"

text \<open>
  A batch, \<^verbatim>\<open>await Promise.all(batch.map(async packageJsonPath => ...))\<close>: the
  manifests are processed concurrently. Each runs its own loop over the specs, which
  reads nothing from \<^verbatim>\<open>seenDeps\<close>; what it pushes there arrives when its
  \<^verbatim>\<open>fs.access\<close> resolves, so the pushes of the batch are an interleaving of the push
  sequences of its manifests. The model stamps every push with its time (the sum of
  the delays of the manifest's loop up to it) and applies the pushes in order of time,
  equal times in the order of the batch. \<^verbatim>\<open>Promise.all\<close> returns the matches in the
  order of the batch (\<^verbatim>\<open>batchResults.flat()\<close>).
\<close>

text \<open>The pushes that fill a \<^verbatim>\<open>seenDeps\<close> of one manifest, in their order.\<close>

definition pushed :: "seen_deps \<Rightarrow> (string \<times> seen_version) list" where
  "pushed seenDeps = concat (map (\<lambda>(depName, versions). map (Pair depName) versions) seenDeps)"

fun stamped ::
  "env \<Rightarrow> string \<Rightarrow> nat \<Rightarrow> (string \<times> seen_version) list \<Rightarrow>
     (nat \<times> string \<times> seen_version) list" where
  "stamped e packageJsonPath t [] = []"
| "stamped e packageJsonPath t ((depName, v) # rest) =
     (t + delay e packageJsonPath depName, depName, v) #
       stamped e packageJsonPath (t + delay e packageJsonPath depName) rest"

definition pushes ::
  "env \<Rightarrow> world \<Rightarrow> (string \<times> string option) list \<Rightarrow> string \<Rightarrow>
     (nat \<times> string \<times> seen_version) list" where
  "pushes e w depsToSearch packageJsonPath =
     stamped e packageJsonPath 0
       (pushed (snd (processManifest e w depsToSearch [] packageJsonPath)))"

fun applyPushes :: "seen_deps \<Rightarrow> (nat \<times> string \<times> seen_version) list \<Rightarrow> seen_deps" where
  "applyPushes seenDeps [] = seenDeps"
| "applyPushes seenDeps ((t, depName, v) # rest) =
     applyPushes (seen_push seenDeps depName v) rest"

definition processBatch ::
  "env \<Rightarrow> world \<Rightarrow> (string \<times> string option) list \<Rightarrow> seen_deps \<Rightarrow> string list \<Rightarrow>
     found list \<times> seen_deps" where
  "processBatch e w depsToSearch seenDeps batch =
     (concat (map (\<lambda>p. fst (processManifest e w depsToSearch [] p)) batch),
      applyPushes seenDeps
        (sort_key fst (concat (map (pushes e w depsToSearch) batch))))"

text \<open>
  The comparison function handed to \<^verbatim>\<open>versions.sort\<close>:
  \<^verbatim>\<open>const cleanA = semver.clean(a.version) || a.version; ...
  return semver.compare(cleanA, cleanB);\<close>
\<close>

definition cleaned :: "env \<Rightarrow> string \<Rightarrow> string" where
  "cleaned e v = (if truthy (semver_clean e v) then the (semver_clean e v) else v)"

definition compareVersions :: "env \<Rightarrow> seen_version \<Rightarrow> seen_version \<Rightarrow> int option" where
  "compareVersions e a b = semver_compare e (cleaned e (fst a)) (cleaned e (fst b))"

text \<open>
  \<^verbatim>\<open>Array.prototype.sort\<close> with a comparison function: the language fixes the result
  for a consistent comparison (ascending, and stable since ES2019) and leaves the
  sequence of calls to the engine. The model is the stable insertion sort, which any
  conforming engine agrees with on a consistent comparison; a comparison that throws
  ends the sort with that exception. An array of one element is returned without any
  comparison.
\<close>

fun insert_by :: "('a \<Rightarrow> 'a \<Rightarrow> int option) \<Rightarrow> 'a \<Rightarrow> 'a list \<Rightarrow> 'a list option" where
  "insert_by cmp x [] = Some [x]"
| "insert_by cmp x (y # ys) =
     (case cmp x y of
        None \<Rightarrow> None
      | Some r \<Rightarrow>
          if r \<le> 0 then Some (x # y # ys)
          else (case insert_by cmp x ys of None \<Rightarrow> None | Some zs \<Rightarrow> Some (y # zs)))"

fun sort_by :: "('a \<Rightarrow> 'a \<Rightarrow> int option) \<Rightarrow> 'a list \<Rightarrow> 'a list option" where
  "sort_by cmp [] = Some []"
| "sort_by cmp (x # xs) =
     (case sort_by cmp xs of None \<Rightarrow> None | Some ys \<Rightarrow> insert_by cmp x ys)"

text \<open>
  \<^verbatim>\<open>for (const [depName, versions] of seenDeps.entries())\<close>: each name with at least one
  recorded version contributes the last element of its sorted array.
\<close>

fun chooseLatest :: "env \<Rightarrow> seen_deps \<Rightarrow> js_error + found list" where
  "chooseLatest e [] = Inr []"
| "chooseLatest e ((depName, versions) # seen) =
     (if versions = [] then chooseLatest e seen
      else (case sort_by (compareVersions e) versions of
              None \<Rightarrow> Inl TypeError
            | Some sortedVersions \<Rightarrow>
                (case chooseLatest e seen of
                   Inl err \<Rightarrow> Inl err
                 | Inr rest \<Rightarrow>
                     Inr (\<lparr>dependency = depName, path = snd (last sortedVersions),
                           version = fst (last sortedVersions)\<rparr> # rest))))"

definition batchSize :: nat where
  "batchSize = 50"

text \<open>
  \<^verbatim>\<open>for (let i = 0; i < packageJsonPaths.length; i += batchSize)\<close>, on the manifests
  not yet taken. The first batch after which \<^verbatim>\<open>flatResults\<close> is not empty ends the
  loop (\<^verbatim>\<open>results.push(...flatResults); break;\<close>); the exception of a comparison is
  not caught here.
\<close>

function scanBatches ::
  "env \<Rightarrow> world \<Rightarrow> (string \<times> string option) list \<Rightarrow> seen_deps \<Rightarrow> string list \<Rightarrow>
     js_error + found list" where
  "scanBatches e w depsToSearch seenDeps paths =
     (if paths = [] then Inr []
      else (case processBatch e w depsToSearch seenDeps (take batchSize paths) of
              (matches, seenDeps') \<Rightarrow>
                (case chooseLatest e seenDeps' of
                   Inl err \<Rightarrow> Inl err
                 | Inr latest \<Rightarrow>
                     if matches @ latest \<noteq> [] then Inr (matches @ latest)
                     else scanBatches e w depsToSearch seenDeps' (drop batchSize paths))))"
  by pat_completeness auto
termination
  by (relation "measure (\<lambda>(e, w, depsToSearch, seenDeps, paths). length paths)")
     (auto simp: batchSize_def)

text \<open>
  The local manifest as \<^verbatim>\<open>getDependencyPaths\<close> and \<^verbatim>\<open>copyDependenciesToLocal\<close> read
  it: \<^verbatim>\<open>{ dependencies: {} }\<close> stands in for a file that cannot be read.
\<close>

definition readLocalPackageJson :: "env \<Rightarrow> world \<Rightarrow> manifest" where
  "readLocalPackageJson e w =
     (case readJson w (localPackageJsonPath e) of
        None \<Rightarrow> \<lparr>dependencies = Some [], devDependencies = None, peerDependencies = None\<rparr>
      | Some packageJson \<Rightarrow> packageJson)"

text \<open>
  \<^verbatim>\<open>if (!localVersion || !localModuleExists) depsToSearch.push([depName, depVersion]);\<close>
\<close>

definition satisfiedLocally :: "env \<Rightarrow> world \<Rightarrow> string \<Rightarrow> bool" where
  "satisfiedLocally e w depName =
     (prop_truthy (dependencies (readLocalPackageJson e w)) depName \<and>
      localModule e depName \<in> existing w)"

definition depsToSearch :: "env \<Rightarrow> world \<Rightarrow> string list \<Rightarrow> (string \<times> string option) list" where
  "depsToSearch e w dependencyNames =
     filter (\<lambda>(depName, depVersion). \<not> satisfiedLocally e w depName)
       (dependencySpecs dependencyNames)"

definition getDependencyPaths :: "env \<Rightarrow> world \<Rightarrow> string list \<Rightarrow> js_error + found list" where
  "getDependencyPaths e w dependencyNames =
     (if depsToSearch e w dependencyNames = [] then Inr []
      else scanBatches e w (depsToSearch e w dependencyNames) [] (packageJsonPaths e))"

section \<open>Installation: copyDependenciesToLocal\<close>

text \<open>
  What a run does that can be observed from outside: calls that change the file system
  or start a process, and what each spinner ends on.
\<close>

datatype event =
    RemoveCall string
  | CopyCall string string
  | InfoAlreadyInstalled string
  | SucceedAddedToPackageJson string
  | SucceedInstalled string
  | FailInvalidSource string
  | FailInstall string
  | WriteJson manifest
  | WriteJsonFailed
  | Spawn package_manager "string list"
  | SpawnSucceeded
  | SpawnFailed

record install_state =
  packageJson :: manifest
  fs :: world
  trace :: "event list"

text \<open>\<^verbatim>\<open>packageJson.dependencies[dep.dependency] = dep.version;\<close>\<close>

definition recordDependency :: "manifest \<Rightarrow> found \<Rightarrow> manifest" where
  "recordDependency pj dep =
     pj\<lparr>dependencies :=
          Some (obj_assign (case dependencies pj of None \<Rightarrow> [] | Some obj \<Rightarrow> obj)
                  (dependency dep) (version dep))\<rparr>"

text \<open>
  The handler of the loop body: \<^verbatim>\<open>if (err.code === 'EXDEV') depSpinner.info(...
  is already installed) else depSpinner.fail(...)\<close>.
\<close>

definition caught :: "fs_error \<Rightarrow> found \<Rightarrow> install_state \<Rightarrow> install_state" where
  "caught err dep st =
     st\<lparr>trace := trace st @
          [if err = EXDEV then InfoAlreadyInstalled (dependency dep)
           else FailInstall (dependency dep)]\<rparr>"

text \<open>
  The body of \<^verbatim>\<open>for (const dep of dependencies)\<close> (the resolved list). In the copying branch the target
  does not exist when \<^verbatim>\<open>fs.remove\<close> is called, so a removal that returns leaves the
  set of existing paths as it is.
\<close>

definition installDependency :: "env \<Rightarrow> install_state \<Rightarrow> found \<Rightarrow> install_state" where
  "installDependency e st dep =
     (let targetPath = localModule e (dependency dep);
          depExists = (targetPath \<in> existing (fs st));
          depInPackageJson = prop_truthy (dependencies (packageJson st)) (dependency dep)
      in if depExists \<and> depInPackageJson then st
         else if sourceOutsideTarget e targetPath (path dep) then
           (if depExists then
              st\<lparr>packageJson := recordDependency (packageJson st) dep,
                 trace := trace st @ [SucceedAddedToPackageJson (dependency dep)]\<rparr>
            else
              (case fs_remove e targetPath of
                 Some err \<Rightarrow> caught err dep (st\<lparr>trace := trace st @ [RemoveCall targetPath]\<rparr>)
               | None \<Rightarrow>
                   (case fs_copy e (path dep) targetPath of
                      CopyDone \<Rightarrow>
                        st\<lparr>packageJson := recordDependency (packageJson st) dep,
                           fs := (fs st)\<lparr>existing := insert targetPath (existing (fs st))\<rparr>,
                           trace := trace st @
                             [RemoveCall targetPath, CopyCall (path dep) targetPath,
                              SucceedInstalled (dependency dep)]\<rparr>
                    | CopyThrows err partial \<Rightarrow>
                        caught err dep
                          (st\<lparr>fs := (fs st)\<lparr>existing :=
                                  (if partial then insert targetPath (existing (fs st))
                                   else existing (fs st))\<rparr>,
                              trace := trace st @
                                [RemoveCall targetPath, CopyCall (path dep) targetPath]\<rparr>))))
         else st\<lparr>trace := trace st @ [FailInvalidSource (dependency dep)]\<rparr>)"

text \<open>
  \<^verbatim>\<open>packageJson = await fs.readJson(packageJsonPath)\<close> with its fallback, then
  \<^verbatim>\<open>if (!packageJson.dependencies) packageJson.dependencies = {};\<close>
\<close>

definition initialPackageJson :: "env \<Rightarrow> world \<Rightarrow> manifest" where
  "initialPackageJson e w =
     (let pj = readLocalPackageJson e w
      in if dependencies pj = None then pj\<lparr>dependencies := Some []\<rparr> else pj)"

text \<open>\<^verbatim>\<open>fs.writeJson(packageJsonPath, packageJson, { spaces: 2 })\<close> in its \<^verbatim>\<open>try\<close>.\<close>

definition writePackageJson :: "env \<Rightarrow> install_state \<Rightarrow> install_state" where
  "writePackageJson e st =
     (if writeJson_fails e then st\<lparr>trace := trace st @ [WriteJsonFailed]\<rparr>
      else st\<lparr>fs := (fs st)\<lparr>readJson :=
                  (readJson (fs st))(localPackageJsonPath e := Some (packageJson st))\<rparr>,
              trace := trace st @ [WriteJson (packageJson st)]\<rparr>)"

text \<open>
  \<^verbatim>\<open>const foundDeps = new Set(dependencies.map(d => d.dependency));
  const missingDeps = allDependencies.filter(d => !foundDeps.has(d.split('@')[0]));\<close>
\<close>

definition missingDeps :: "found list \<Rightarrow> string list \<Rightarrow> string list" where
  "missingDeps resolved allDependencies =
     filter (\<lambda>d. hd (split_on (CHR ''@'') d) \<notin> set (map dependency resolved))
       allDependencies"

definition installCommands :: "package_manager \<Rightarrow> string list" where
  "installCommands pm = (case pm of Npm \<Rightarrow> [''install''] | Yarn \<Rightarrow> [''add''] | Pnpm \<Rightarrow> [''add''])"

text \<open>
  The fallback of \<^verbatim>\<open>copyDependenciesToLocal\<close>: the promise rejects on a non-zero
  close code and on \<^verbatim>\<open>error\<close>; the \<^verbatim>\<open>catch\<close> logs the failure and the function
  returns.
\<close>

definition installRemaining ::
  "env \<Rightarrow> package_manager \<Rightarrow> string list \<Rightarrow> install_state \<Rightarrow> install_state" where
  "installRemaining e packageManager missing st =
     (if missing = [] then st
      else st\<lparr>trace := trace st @
             [Spawn packageManager (installCommands packageManager @ missing),
              (if spawn e packageManager (installCommands packageManager @ missing) = Close 0
               then SpawnSucceeded else SpawnFailed)]\<rparr>)"

definition copyDependenciesToLocal ::
  "env \<Rightarrow> world \<Rightarrow> found list \<Rightarrow> string list \<Rightarrow> package_manager \<Rightarrow> install_state" where
  "copyDependenciesToLocal e w resolved allDependencies packageManager =
     installRemaining e packageManager (missingDeps resolved allDependencies)
       (writePackageJson e
          (foldl (installDependency e)
             \<lparr>packageJson = initialPackageJson e w, fs = w, trace = []\<rparr> resolved))"

section \<open>The program\<close>

datatype exit_status = Exit nat | UnhandledRejection js_error

record run =
  exit :: exit_status
  final :: world
  events :: "event list"

text \<open>
  From \<^verbatim>\<open>const results = await getDependencyPaths(depsToSearch, customRootDir)\<close> on.
  With no result the package manager gets every requested identifier and the process
  exits with 0 or 1; otherwise \<^verbatim>\<open>copyDependenciesToLocal\<close> runs and the program ends
  when it returns. An exception of \<^verbatim>\<open>getDependencyPaths\<close> is caught nowhere.
\<close>

definition resolveAndInstall :: "env \<Rightarrow> world \<Rightarrow> string list \<Rightarrow> package_manager \<Rightarrow> run" where
  "resolveAndInstall e w requested packageManager =
     (case getDependencyPaths e w requested of
        Inl err \<Rightarrow> \<lparr>exit = UnhandledRejection err, final = w, events = []\<rparr>
      | Inr results \<Rightarrow>
          if results = [] then
            \<lparr>exit = (if spawn e packageManager (installCommands packageManager @ requested)
                        = Close 0 then Exit 0 else Exit 1),
             final = w,
             events = [Spawn packageManager (installCommands packageManager @ requested)]\<rparr>
          else
            (let st = copyDependenciesToLocal e w results requested packageManager
             in \<lparr>exit = Exit 0, final = fs st, events = trace st\<rparr>))"

text \<open>
  With no positional argument the identifiers come from the local manifest:
  \<^verbatim>\<open>version.startsWith('^') || version.startsWith('~') ? name : `${name}@${version}`\<close>.
\<close>

definition fromPackageJson :: "manifest \<Rightarrow> string list" where
  "fromPackageJson pj =
     map (\<lambda>(name, version).
            if starts_with ''^'' version \<or> starts_with ''~'' version then name
            else name @ ''@'' @ version)
       (case dependencies pj of None \<Rightarrow> [] | Some obj \<Rightarrow> obj)"

definition main :: "env \<Rightarrow> world \<Rightarrow> string list \<Rightarrow> package_manager \<Rightarrow> run" where
  "main e w dependencyNames packageManager =
     (if dependencyNames = [] then
        (case readJson w (localPackageJsonPath e) of
           None \<Rightarrow> \<lparr>exit = Exit 1, final = w, events = []\<rparr>
         | Some pj \<Rightarrow>
             if fromPackageJson pj = [] then \<lparr>exit = Exit 0, final = w, events = []\<rparr>
             else resolveAndInstall e w (fromPackageJson pj) packageManager)
      else resolveAndInstall e w dependencyNames packageManager)"

section \<open>A concrete platform\<close>

text \<open>
  An instance of the platform for the examples: POSIX paths without dot segments, a
  working directory \<^verbatim>\<open>/app\<close>, reads that complete in the order of the batch, and \<^verbatim>\<open>semver\<close> on versions of the plain form
  MAJOR.MINOR.PATCH, where \<^verbatim>\<open>semver.compare\<close> orders by the three numbers and
  \<^verbatim>\<open>semver.clean\<close> returns the version itself. Every other string counts as invalid
  here, so the examples use plain versions only.
\<close>

fun parse_digits :: "nat \<Rightarrow> string \<Rightarrow> nat option" where
  "parse_digits acc [] = Some acc"
| "parse_digits acc (c # cs) =
     (if 48 \<le> (of_char c :: nat) \<and> (of_char c :: nat) \<le> 57
      then parse_digits (10 * acc + (of_char c - 48)) cs else None)"

definition numeric_identifier :: "string \<Rightarrow> nat option" where
  "numeric_identifier s =
     (if s = [] \<or> (length s > 1 \<and> hd s = CHR ''0'') then None else parse_digits 0 s)"

definition plain_version :: "string \<Rightarrow> (nat \<times> nat \<times> nat) option" where
  "plain_version s =
     (case map numeric_identifier (split_on (CHR ''.'') s) of
        [Some major, Some minor, Some patch] \<Rightarrow> Some (major, minor, patch)
      | _ \<Rightarrow> None)"

fun triple_less :: "nat \<times> nat \<times> nat \<Rightarrow> nat \<times> nat \<times> nat \<Rightarrow> bool" where
  "triple_less (a, b, c) (x, y, z) = (a < x \<or> (a = x \<and> (b < y \<or> (b = y \<and> c < z))))"

definition plain_compare :: "string \<Rightarrow> string \<Rightarrow> int option" where
  "plain_compare a b =
     (case (plain_version a, plain_version b) of
        (Some x, Some y) \<Rightarrow> Some (if triple_less x y then - 1 else if x = y then 0 else 1)
      | _ \<Rightarrow> None)"

definition plain_clean :: "string \<Rightarrow> string option" where
  "plain_clean s = (if plain_version s = None then None else Some s)"

definition posix_dirname :: "string \<Rightarrow> string" where
  "posix_dirname p = rev (tl (dropWhile (\<lambda>c. c \<noteq> CHR ''/'') (rev p)))"

definition posix :: "string list \<Rightarrow> env" where
  "posix paths =
     \<lparr>localPackageJsonPath = ''/app/package.json'',
      localModule = (\<lambda>name. ''/app/node_modules/'' @ name),
      siblingModule = (\<lambda>p name. posix_dirname p @ ''/node_modules/'' @ name),
      sourceOutsideTarget =
        (\<lambda>target source. \<not> (source = target \<or> starts_with (target @ ''/'') source)),
      semver_clean = plain_clean,
      semver_compare = plain_compare,
      packageJsonPaths = paths,
      delay = (\<lambda>p name. 0),
      fs_remove = (\<lambda>p. None),
      fs_copy = (\<lambda>source target. CopyDone),
      writeJson_fails = False,
      spawn = (\<lambda>pm args. Close 0)\<rparr>"

section \<open>Example file systems\<close>

text \<open>A manifest with a regular group only.\<close>

definition declaring :: "jsobj \<Rightarrow> manifest" where
  "declaring obj = \<lparr>dependencies = Some obj, devDependencies = None, peerDependencies = None\<rparr>"

definition react_world :: world where
  "react_world =
     \<lparr>readJson = (\<lambda>p.
        if p = ''/a/package.json'' then Some (declaring [(''react'', ''16.0.0'')])
        else if p = ''/b/package.json'' then Some (declaring [(''react'', ''17.0.2'')])
        else None),
      existing = {''/a/node_modules/react'', ''/b/node_modules/react''}\<rparr>"

definition leftpad_world :: world where
  "leftpad_world =
     \<lparr>readJson = (\<lambda>p.
        if p = ''/proj/package.json'' then Some (declaring [(''left-pad'', ''^1.3.0'')])
        else None),
      existing = {''/proj/node_modules/left-pad''}\<rparr>"

definition react_twice_world :: world where
  "react_twice_world =
     \<lparr>readJson = (\<lambda>p.
        if p = ''/a/package.json'' then Some (declaring [(''react'', ''17.0.2'')])
        else if p = ''/b/package.json'' then Some (declaring [(''react'', ''17.0.2'')])
        else None),
      existing = {''/a/node_modules/react'', ''/b/node_modules/react''}\<rparr>"

definition satisfied_world :: world where
  "satisfied_world =
     \<lparr>readJson = (\<lambda>p.
        if p = ''/app/package.json'' then Some (declaring [(''a'', ''1.0.0'')])
        else if p = ''/proj/package.json'' then Some (declaring [(''b'', ''2.0.0'')])
        else None),
      existing = {''/app/node_modules/a'', ''/proj/node_modules/b''}\<rparr>"

definition failing_package_manager :: "env \<Rightarrow> env" where
  "failing_package_manager e = e\<lparr>spawn := (\<lambda>pm args. Close 1)\<rparr>"

definition cross_device :: "env \<Rightarrow> env" where
  "cross_device e = e\<lparr>fs_copy := (\<lambda>source target. CopyThrows EXDEV False)\<rparr>"

definition leftpad_found :: found where
  "leftpad_found =
     \<lparr>dependency = ''left-pad'', path = ''/proj/node_modules/left-pad'', version = ''1.3.0''\<rparr>"

definition leftpad_start :: install_state where
  "leftpad_start =
     \<lparr>packageJson = initialPackageJson (posix [''/proj/package.json'']) leftpad_world,
      fs = leftpad_world, trace = []\<rparr>"






section \<open>Vocabulary of the statements\<close>



text \<open>
  What one manifest offers for a name requested without a version: the tests of the
  manifest loop (path not nested, file readable, a non-empty own declaration, the
  sibling directory present) and the entry the loop stores, the declared version
  without its range marker and the sibling directory. The candidates of a list of
  manifests are those of its members, in the order of the list.
\<close>

definition candidate :: "env \<Rightarrow> world \<Rightarrow> string \<Rightarrow> string \<Rightarrow> seen_version list" where
  "candidate e w depName packageJsonPath =
     (if nested_node_modules packageJsonPath then []
      else (case readJson w packageJsonPath of
              None \<Rightarrow> []
            | Some pj \<Rightarrow>
                if accepts None (mergedDependencies pj depName) \<and>
                   siblingModule e packageJsonPath depName \<in> existing w
                then [(remove_range_marker (the (mergedDependencies pj depName)),
                       siblingModule e packageJsonPath depName)]
                else []))"

definition candidates :: "env \<Rightarrow> world \<Rightarrow> string \<Rightarrow> string list \<Rightarrow> seen_version list" where
  "candidates e w depName paths = concat (map (candidate e w depName) paths)"

text \<open>The \<open>k\<close>-th batch of the crawl, \<^verbatim>\<open>packageJsonPaths.slice(i, i + batchSize)\<close>.\<close>

definition batchAt :: "string list \<Rightarrow> nat \<Rightarrow> string list" where
  "batchAt paths k = take batchSize (drop (k * batchSize) paths)"




section \<open>Lemmas on parsing\<close>

lemma split_on_nonempty: "split_on c s \<noteq> []"
  by (induction s) (auto split: list.splits)

lemma hd_split_on: "hd (split_on c s) = takeWhile (\<lambda>x. x \<noteq> c) s"
  by (induction s) (auto split: list.splits simp: split_on_nonempty)

lemma split_on_Cons_same: "split_on c (c # s) = [] # split_on c s"
  by simp

lemma fst_parseSpec: "fst (parseSpec dep) = takeWhile (\<lambda>x. x \<noteq> CHR ''@'') dep"
proof -
  have "fst (parseSpec dep) = hd (split_on (CHR ''@'') dep)"
    using split_on_nonempty [of "CHR ''@''" dep]
    by (auto simp: parseSpec_def split: list.splits)
  then show ?thesis by (simp add: hd_split_on)
qed

lemma parseSpec_name_no_at: "CHR ''@'' \<notin> set (fst (parseSpec dep))"
  unfolding fst_parseSpec by (auto dest: set_takeWhileD)

section \<open>Merging the dependency groups\<close>

lemma mergedDependencies_lookup:
  "mergedDependencies pj depName =
     (case spread (peerDependencies pj) depName of
        Some v \<Rightarrow> Some v
      | None \<Rightarrow>
          (case spread (devDependencies pj) depName of
             Some v \<Rightarrow> Some v
           | None \<Rightarrow> spread (dependencies pj) depName))"
  by (simp add: mergedDependencies_def map_add_def split: option.splits)

text \<open>
  C6, as the code has it. The three groups are merged by object spread in the order
  regular, dev, peer, and a spread assigns over what is already there: on a name
  declared by several groups the version of the last declaring group stands (peer
  before dev before regular), not that of the first.
\<close>

theorem merge_last_group_wins:
  "mergedDependencies pj depName =
     (if spread (peerDependencies pj) depName \<noteq> None
      then spread (peerDependencies pj) depName
      else if spread (devDependencies pj) depName \<noteq> None
      then spread (devDependencies pj) depName
      else spread (dependencies pj) depName)"
  by (simp add: mergedDependencies_lookup split: option.splits)

text \<open>
  C6 as stated fails: with \<^verbatim>\<open>{"dependencies": {"a": "1.0.0"},
  "peerDependencies": {"a": "2.0.0"}}\<close> the regular group declares \<open>1.0.0\<close> and the
  merged mapping holds \<open>2.0.0\<close>.
\<close>

theorem merge_first_group_wins_counterexample:
  "spread (dependencies \<lparr>dependencies = Some [(''a'', ''1.0.0'')], devDependencies = None,
       peerDependencies = Some [(''a'', ''2.0.0'')]\<rparr>) ''a'' = Some ''1.0.0'' \<and>
   mergedDependencies \<lparr>dependencies = Some [(''a'', ''1.0.0'')], devDependencies = None,
       peerDependencies = Some [(''a'', ''2.0.0'')]\<rparr> ''a'' = Some ''2.0.0''"
  by (simp add: mergedDependencies_def spread_def)

lemma map_fst_map_set:
  "map fst (map_set m k v) = (if k \<in> fst ` set m then map fst m else map fst m @ [k])"
  by (induction m) (force simp: image_iff)+

lemma map_set_distinct: "distinct (map fst m) \<Longrightarrow> distinct (map fst (map_set m k v))"
  by (simp add: map_fst_map_set)

lemma foldl_map_set_distinct:
  "distinct (map fst m) \<Longrightarrow> distinct (map fst (foldl (\<lambda>m d. map_set m (f d) (g d)) m ds))"
  by (induction ds arbitrary: m) (auto simp: map_set_distinct)

lemma dependencySpecs_distinct: "distinct (map fst (dependencySpecs names))"
  unfolding dependencySpecs_def by (rule foldl_map_set_distinct) simp


lemma depsToSearch_subset: "set (depsToSearch e w names) \<subseteq> set (dependencySpecs names)"
  unfolding depsToSearch_def by auto

lemma foldl_map_set_names:
  "fst ` set (foldl (\<lambda>m d. map_set m (f d) (g d)) m ds) \<subseteq> fst ` set m \<union> f ` set ds"
proof (induction ds arbitrary: m)
  case Nil then show ?case by simp
next
  case (Cons d ds)
  have "fst ` set (map_set m (f d) (g d)) \<subseteq> insert (f d) (fst ` set m)"
    using map_fst_map_set [of m "f d" "g d"]
    by (metis (no_types, lifting) list.set_map set_append set_simps(1,2) subset_insertI
        Un_insert_right sup_bot.right_neutral subset_refl insert_absorb)
  with Cons.IH [of "map_set m (f d) (g d)"] show ?case by auto
qed

lemma dependencySpecs_names:
  "fst ` set (dependencySpecs names) \<subseteq> (\<lambda>d. fst (parseSpec d)) ` set names"
  unfolding dependencySpecs_def using foldl_map_set_names [of "\<lambda>d. fst (parseSpec d)" _ "[]" names] by simp

lemma map_fst_seen_push:
  "map fst (seen_push seen n v) = (if n \<in> fst ` set seen then map fst seen else map fst seen @ [n])"
  by (induction seen) (force simp: image_iff)+

lemma matchSpecs_Cons:
  "matchSpecs e w deps p seen ((n, v) # rest) =
     (if accepts v (deps n) \<and> siblingModule e p n \<in> existing w then
        (if truthy v then
           ([\<lparr>dependency = n, path = siblingModule e p n, version = the (deps n)\<rparr>], seen)
         else matchSpecs e w deps p
                (seen_push seen n (remove_range_marker (the (deps n)), siblingModule e p n)) rest)
      else matchSpecs e w deps p seen rest)"
  by (simp add: Let_def)

lemma accepts_truthy: "truthy v \<Longrightarrow> accepts v f \<longleftrightarrow> f = v"
  by (auto simp: accepts_def truthy_def split: option.splits)

lemma matchSpecs_matches:
  "matchSpecs e w deps p seen specs = (ms, seen') \<Longrightarrow> r \<in> set ms \<Longrightarrow>
     \<exists>c. (dependency r, Some c) \<in> set specs \<and> c \<noteq> [] \<and> deps (dependency r) = Some c \<and>
         version r = c \<and> path r = siblingModule e p (dependency r) \<and> path r \<in> existing w"
proof (induction specs arbitrary: seen)
  case Nil then show ?case by simp
next
  case (Cons a specs)
  obtain n v where a: "a = (n, v)" by (cases a)
  show ?case
  proof (cases "accepts v (deps n) \<and> siblingModule e p n \<in> existing w")
    case False
    then have "matchSpecs e w deps p seen specs = (ms, seen')"
      using Cons.prems(1) unfolding a matchSpecs_Cons by (auto split: if_splits)
    from Cons.IH [OF this Cons.prems(2)] show ?thesis by auto
  next
    case acc: True
    show ?thesis
    proof (cases "truthy v")
      case True
      then obtain c where v: "v = Some c" "c \<noteq> []"
        by (auto simp: truthy_def split: option.splits)
      from acc True have "deps n = v" by (simp add: accepts_truthy)
      moreover from Cons.prems acc True have "r = \<lparr>dependency = n, path = siblingModule e p n, version = the (deps n)\<rparr>"
        unfolding a matchSpecs_Cons by auto
      ultimately show ?thesis using v acc unfolding a by auto
    next
      case False
      then have "matchSpecs e w deps p (seen_push seen n (remove_range_marker (the (deps n)), siblingModule e p n)) specs = (ms, seen')"
        using Cons.prems(1) acc unfolding a matchSpecs_Cons by simp
      from Cons.IH [OF this Cons.prems(2)] show ?thesis by auto
    qed
  qed
qed

lemma seen_push_keys: "fst ` set (seen_push seen n v) = insert n (fst ` set seen)"
proof -
  have "set (map fst (seen_push seen n v)) = insert n (set (map fst seen))"
    unfolding map_fst_seen_push by auto
  then show ?thesis by simp
qed

lemma matchSpecs_seen_keys:
  "matchSpecs e w deps p seen specs = (ms, seen') \<Longrightarrow>
     fst ` set seen' \<subseteq> fst ` set seen \<union> fst ` {s \<in> set specs. \<not> truthy (snd s)}"
proof (induction specs arbitrary: seen)
  case Nil then show ?case by simp
next
  case (Cons a specs)
  obtain n v where a: "a = (n, v)" by (cases a)
  show ?case
  proof (cases "accepts v (deps n) \<and> siblingModule e p n \<in> existing w")
    case False
    then have "matchSpecs e w deps p seen specs = (ms, seen')"
      using Cons.prems(1) unfolding a matchSpecs_Cons by (auto split: if_splits)
    from Cons.IH [OF this] show ?thesis by auto
  next
    case acc: True
    show ?thesis
    proof (cases "truthy v")
      case True
      with Cons.prems acc show ?thesis unfolding a matchSpecs_Cons by auto
    next
      case False
      let ?s = "seen_push seen n (remove_range_marker (the (deps n)), siblingModule e p n)"
      have "matchSpecs e w deps p ?s specs = (ms, seen')"
        using Cons.prems(1) acc False unfolding a matchSpecs_Cons by simp
      from Cons.IH [OF this]
      have "fst ` set seen' \<subseteq> insert n (fst ` set seen) \<union> fst ` {s \<in> set specs. \<not> truthy (snd s)}"
        unfolding seen_push_keys .
      moreover have "n \<in> fst ` {s \<in> set (a # specs). \<not> truthy (snd s)}"
        using False unfolding a by force
      moreover have "fst ` {s \<in> set specs. \<not> truthy (snd s)} \<subseteq> fst ` {s \<in> set (a # specs). \<not> truthy (snd s)}"
        by auto
      ultimately show ?thesis by blast
    qed
  qed
qed

lemma processManifest_matches:
  assumes "processManifest e w specs seen p = (ms, seen')" and "r \<in> set ms"
  shows "\<exists>c pj. (dependency r, Some c) \<in> set specs \<and> c \<noteq> [] \<and>
           \<not> nested_node_modules p \<and> readJson w p = Some pj \<and>
           mergedDependencies pj (dependency r) = Some c \<and> version r = c \<and>
           path r = siblingModule e p (dependency r) \<and> path r \<in> existing w"
proof (cases "nested_node_modules p")
  case True
  with assms show ?thesis by (simp add: processManifest_def)
next
  case False
  show ?thesis
  proof (cases "readJson w p")
    case None
    with assms False show ?thesis by (simp add: processManifest_def)
  next
    case (Some pj)
    with assms False have "matchSpecs e w (mergedDependencies pj) p seen specs = (ms, seen')"
      by (simp add: processManifest_def)
    from matchSpecs_matches [OF this assms(2)] False Some show ?thesis by auto
  qed
qed

lemma processManifest_seen_keys:
  assumes "processManifest e w specs seen p = (ms, seen')"
  shows "fst ` set seen' \<subseteq> fst ` set seen \<union> fst ` {s \<in> set specs. \<not> truthy (snd s)}"
proof (cases "nested_node_modules p \<or> readJson w p = None")
  case True
  with assms have "seen' = seen" by (auto simp: processManifest_def split: if_splits)
  then show ?thesis by auto
next
  case False
  then obtain pj where "readJson w p = Some pj" by auto
  with assms False have "matchSpecs e w (mergedDependencies pj) p seen specs = (ms, seen')"
    by (simp add: processManifest_def)
  from matchSpecs_seen_keys [OF this] show ?thesis .
qed

lemma map_snd_stamped: "map snd (stamped e p t xs) = xs"
proof (induction xs arbitrary: t)
  case Nil then show ?case by simp
next
  case (Cons x xs)
  obtain n v where "x = (n, v)" by (cases x)
  with Cons.IH show ?case by simp
qed

lemma set_pushes:
  "snd ` set (pushes e w specs p) = set (pushed (snd (processManifest e w specs [] p)))"
proof -
  have "set (map snd (pushes e w specs p)) =
        set (pushed (snd (processManifest e w specs [] p)))"
    unfolding pushes_def map_snd_stamped ..
  then show ?thesis by simp
qed

lemma in_pushed: "(n, v) \<in> set (pushed s) \<longleftrightarrow> (\<exists>vs. (n, vs) \<in> set s \<and> v \<in> set vs)"
  by (auto simp: pushed_def)

lemma applyPushes_keys:
  "fst ` set (applyPushes seen xs) = fst ` set seen \<union> (\<lambda>x. fst (snd x)) ` set xs"
proof (induction xs arbitrary: seen)
  case Nil then show ?case by simp
next
  case (Cons x xs)
  obtain t n v where x: "x = (t, n, v)" by (cases x)
  show ?case unfolding x using Cons.IH [of "seen_push seen n v"]
    by (simp add: seen_push_keys)
qed

lemma processBatch_matches:
  "processBatch e w specs seen ps = (ms, seen') \<Longrightarrow> r \<in> set ms \<Longrightarrow>
     \<exists>p \<in> set ps. \<exists>c pj. (dependency r, Some c) \<in> set specs \<and> c \<noteq> [] \<and>
           \<not> nested_node_modules p \<and> readJson w p = Some pj \<and>
           mergedDependencies pj (dependency r) = Some c \<and> version r = c \<and>
           path r = siblingModule e p (dependency r) \<and> path r \<in> existing w"
proof -
  assume "processBatch e w specs seen ps = (ms, seen')" and r: "r \<in> set ms"
  then have "ms = concat (map (\<lambda>p. fst (processManifest e w specs [] p)) ps)"
    by (simp add: processBatch_def)
  with r obtain p where p: "p \<in> set ps" "r \<in> set (fst (processManifest e w specs [] p))"
    by auto
  have "processManifest e w specs [] p =
      (fst (processManifest e w specs [] p), snd (processManifest e w specs [] p))" by simp
  from processManifest_matches [OF this p(2)] p(1) show ?thesis by blast
qed

lemma processBatch_seen_keys:
  assumes "processBatch e w specs seen ps = (ms, seen')"
  shows "fst ` set seen' \<subseteq> fst ` set seen \<union> fst ` {s \<in> set specs. \<not> truthy (snd s)}"
proof
  fix n assume n: "n \<in> fst ` set seen'"
  let ?xs = "sort_key fst (concat (map (pushes e w specs) ps))"
  from assms have "seen' = applyPushes seen ?xs" by (simp add: processBatch_def)
  with n have "n \<in> fst ` set seen \<union> (\<lambda>x. fst (snd x)) ` set ?xs"
    by (simp add: applyPushes_keys)
  then show "n \<in> fst ` set seen \<union> fst ` {s \<in> set specs. \<not> truthy (snd s)}"
  proof
    assume "n \<in> fst ` set seen" then show ?thesis by simp
  next
    assume "n \<in> (\<lambda>x. fst (snd x)) ` set ?xs"
    then obtain t v p where p: "p \<in> set ps" and x: "(t, n, v) \<in> set (pushes e w specs p)"
      by force
    from x have "(n, v) \<in> snd ` set (pushes e w specs p)" by force
    then have "(n, v) \<in> set (pushed (snd (processManifest e w specs [] p)))"
      unfolding set_pushes .
    then have k: "n \<in> fst ` set (snd (processManifest e w specs [] p))"
      unfolding in_pushed by force
    have "processManifest e w specs [] p =
      (fst (processManifest e w specs [] p), snd (processManifest e w specs [] p))" by simp
    from processManifest_seen_keys [OF this] k show ?thesis by auto
  qed
qed

lemma chooseLatest_names:
  "chooseLatest e seen = Inr rs \<Longrightarrow> dependency ` set rs \<subseteq> fst ` set seen"
proof (induction seen arbitrary: rs)
  case Nil then show ?case by simp
next
  case (Cons a seen)
  obtain n vs where a: "a = (n, vs)" by (cases a)
  show ?case
  proof (cases "vs = []")
    case True
    with Cons.prems have "chooseLatest e seen = Inr rs" unfolding a by simp
    from Cons.IH [OF this] show ?thesis by auto
  next
    case False
    with Cons.prems obtain sortedVersions rest where
      "chooseLatest e seen = Inr rest"
      "rs = \<lparr>dependency = n, path = snd (last sortedVersions), version = fst (last sortedVersions)\<rparr> # rest"
      unfolding a by (auto split: option.splits sum.splits)
    with Cons.IH [of rest] show ?thesis unfolding a by auto
  qed
qed

lemma scanBatches_results:
  "scanBatches e w specs seen paths = Inr rs \<Longrightarrow> r \<in> set rs \<Longrightarrow>
   fst ` set seen \<subseteq> fst ` {s \<in> set specs. \<not> truthy (snd s)} \<Longrightarrow>
     (\<exists>p \<in> set paths. \<exists>c pj. (dependency r, Some c) \<in> set specs \<and> c \<noteq> [] \<and>
           \<not> nested_node_modules p \<and> readJson w p = Some pj \<and>
           mergedDependencies pj (dependency r) = Some c \<and> version r = c \<and>
           path r = siblingModule e p (dependency r) \<and> path r \<in> existing w)
     \<or> dependency r \<in> fst ` {s \<in> set specs. \<not> truthy (snd s)}"
proof (induction e w specs seen paths rule: scanBatches.induct)
  case (1 e w specs seen paths)
  show ?case
  proof (cases "paths = []")
    case True
    with "1.prems" show ?thesis by (simp add: scanBatches.simps)
  next
    case False
    obtain ms s1 where pb: "processBatch e w specs seen (take batchSize paths) = (ms, s1)"
      by (cases "processBatch e w specs seen (take batchSize paths)")
    have keys: "fst ` set s1 \<subseteq> fst ` {s \<in> set specs. \<not> truthy (snd s)}"
      using processBatch_seen_keys [OF pb] "1.prems"(3) by blast
    from "1.prems"(1) False pb obtain latest where cl: "chooseLatest e s1 = Inr latest"
      by (subst (asm) scanBatches.simps) (auto split: sum.splits)
    show ?thesis
    proof (cases "ms @ latest = []")
      case True
      with "1.prems"(1) False pb cl
      have "scanBatches e w specs s1 (drop batchSize paths) = Inr rs"
        by (subst (asm) scanBatches.simps) simp
      moreover from True have "\<not> ms @ latest \<noteq> []" by simp
      ultimately show ?thesis
        using "1.IH" [OF False pb [symmetric] cl _ _ "1.prems"(2) keys]
        by (auto dest: in_set_dropD)
    next
      case nonempty: False
      with "1.prems"(1) False pb cl have rs: "rs = ms @ latest"
        by (subst (asm) scanBatches.simps) simp
      with "1.prems"(2) consider "r \<in> set ms" | "r \<in> set latest" by auto
      then show ?thesis
      proof cases
        case 1
        from processBatch_matches [OF pb 1] show ?thesis by (auto dest: in_set_takeD)
      next
        case 2
        with chooseLatest_names [OF cl] keys show ?thesis by blast
      qed
    qed
  qed
qed

lemma getDependencyPaths_results:
  assumes "getDependencyPaths e w names = Inr rs" and "r \<in> set rs"
  shows "(\<exists>p \<in> set (packageJsonPaths e). \<exists>c pj.
            (dependency r, Some c) \<in> set (depsToSearch e w names) \<and> c \<noteq> [] \<and>
            \<not> nested_node_modules p \<and> readJson w p = Some pj \<and>
            mergedDependencies pj (dependency r) = Some c \<and> version r = c \<and>
            path r = siblingModule e p (dependency r) \<and> path r \<in> existing w)
         \<or> dependency r \<in> fst ` {s \<in> set (depsToSearch e w names). \<not> truthy (snd s)}"
proof -
  from assms have "depsToSearch e w names \<noteq> []"
    by (auto simp: getDependencyPaths_def split: if_splits)
  with assms(1) have "scanBatches e w (depsToSearch e w names) [] (packageJsonPaths e) = Inr rs"
    by (simp add: getDependencyPaths_def)
  from scanBatches_results [OF this assms(2)] show ?thesis by simp
qed

lemma result_name_requested:
  assumes "getDependencyPaths e w names = Inr rs" and "r \<in> set rs"
  shows "dependency r \<in> fst ` set (depsToSearch e w names)"
  using getDependencyPaths_results [OF assms] by force

lemma result_name_no_at:
  assumes "getDependencyPaths e w names = Inr rs" and "r \<in> set rs"
  shows "CHR ''@'' \<notin> set (dependency r)"
proof -
  from result_name_requested [OF assms] depsToSearch_subset [of e w names]
  have "dependency r \<in> fst ` set (dependencySpecs names)" by auto
  with dependencySpecs_names [of names] obtain d where "dependency r = fst (parseSpec d)"
    by auto
  then show ?thesis by (simp add: parseSpec_name_no_at)
qed

lemma parseSpec_scoped:
  "parseSpec (CHR ''@'' # rest) = ([], Some (takeWhile (\<lambda>c. c \<noteq> CHR ''@'') rest))"
proof -
  obtain s ss where eq: "split_on (CHR ''@'') rest = s # ss"
    using split_on_nonempty [of "CHR ''@''" rest] by (cases "split_on (CHR ''@'') rest") auto
  then have "s = takeWhile (\<lambda>c. c \<noteq> CHR ''@'') rest"
    using hd_split_on [of "CHR ''@''" rest] by simp
  with eq show ?thesis by (simp add: parseSpec_def)
qed

section \<open>Scoped identifiers\<close>

text \<open>
  C9, as the code has it. An identifier that begins with \<open>@\<close> is parsed to the empty
  name, and its version constraint is the text between that \<open>@\<close> and the next one
  (the whole remainder only when there is no further \<open>@\<close>). No result of
  \<^verbatim>\<open>getDependencyPaths\<close> carries a name with an \<open>@\<close> in it, so a scoped package is
  never matched under its own name.
\<close>

theorem scoped_identifier_parse:
  "parseSpec (CHR ''@'' # rest) = ([], Some (takeWhile (\<lambda>c. c \<noteq> CHR ''@'') rest)) \<and>
   (\<forall>rs. getDependencyPaths e w names = Inr rs \<longrightarrow>
      (\<forall>r \<in> set rs. CHR ''@'' \<notin> set (dependency r)))"
  using parseSpec_scoped result_name_no_at by blast

lemma leftpad_found:
  "getDependencyPaths (posix [''/proj/package.json'']) leftpad_world [''@scope/pkg'', ''left-pad'']
     = Inr [\<lparr>dependency = ''left-pad'', path = ''/proj/node_modules/left-pad'', version = ''1.3.0''\<rparr>]"
  by code_simp

text \<open>
  The theorem at \<^verbatim>\<open>@scope/pkg\<close>, requested together with \<^verbatim>\<open>left-pad\<close>: only
  \<^verbatim>\<open>left-pad\<close> is found.
\<close>

theorem scoped_identifier_parse_witness:
  "parseSpec ''@scope/pkg'' = ([], Some ''scope/pkg'') \<and>
   getDependencyPaths (posix [''/proj/package.json'']) leftpad_world [''@scope/pkg'', ''left-pad'']
     = Inr [\<lparr>dependency = ''left-pad'', path = ''/proj/node_modules/left-pad'', version = ''1.3.0''\<rparr>] \<and>
   CHR ''@'' \<notin> set (dependency \<lparr>dependency = ''left-pad'', path = ''/proj/node_modules/left-pad'', version = ''1.3.0''\<rparr>)"
  using scoped_identifier_parse [of "''scope/pkg''" "posix [''/proj/package.json'']" leftpad_world
          "[''@scope/pkg'', ''left-pad'']"] leftpad_found
  by simp

text \<open>
  C9 as stated fails at \<^verbatim>\<open>@scope/pkg@1.0.0\<close>: the constraint is \<^verbatim>\<open>scope/pkg\<close>, not
  the remainder \<^verbatim>\<open>scope/pkg@1.0.0\<close> of the identifier.
\<close>

theorem scoped_identifier_remainder_counterexample:
  "parseSpec ''@scope/pkg@1.0.0'' = ([], Some ''scope/pkg'') \<and>
   snd (parseSpec ''@scope/pkg@1.0.0'') \<noteq> Some ''scope/pkg@1.0.0''"
  by (simp add: parseSpec_def)

section \<open>Requested versions\<close>

text \<open>
  C2. For a spec with a version constraint \<open>c\<close> (a non-empty string after the
  \<open>@\<close>), the acceptance test holds of a declared version exactly when that version
  is the string \<open>c\<close>, and every result returned for the spec carries \<open>c\<close> as the
  manifest declares it, the manifest being one of the crawl whose sibling directory
  exists. No range marker is removed on this path.
\<close>

theorem constrained_exact_match:
  assumes "c \<noteq> []"
    and "getDependencyPaths e w names = Inr rs" and "r \<in> set rs"
    and "(dependency r, Some c) \<in> set (dependencySpecs names)"
  shows "(accepts (Some c) declared \<longleftrightarrow> declared = Some c) \<and> version r = c \<and>
         (\<exists>p \<in> set (packageJsonPaths e). \<exists>pj. readJson w p = Some pj \<and>
            mergedDependencies pj (dependency r) = Some c \<and>
            path r = siblingModule e p (dependency r) \<and> path r \<in> existing w)"
proof -
  have acc: "accepts (Some c) declared \<longleftrightarrow> declared = Some c"
    using assms(1) by (simp add: accepts_truthy truthy_def)
  have only: "v = Some c" if "(dependency r, v) \<in> set (depsToSearch e w names)" for v
  proof -
    from that depsToSearch_subset [of e w names]
    have "(dependency r, v) \<in> set (dependencySpecs names)" by auto
    with assms(4) dependencySpecs_distinct [of names] show ?thesis
      by (meson eq_key_imp_eq_value)
  qed
  from getDependencyPaths_results [OF assms(2,3)]
  show ?thesis
  proof
    assume "\<exists>p \<in> set (packageJsonPaths e). \<exists>c pj.
            (dependency r, Some c) \<in> set (depsToSearch e w names) \<and> c \<noteq> [] \<and>
            \<not> nested_node_modules p \<and> readJson w p = Some pj \<and>
            mergedDependencies pj (dependency r) = Some c \<and> version r = c \<and>
            path r = siblingModule e p (dependency r) \<and> path r \<in> existing w"
    then obtain p c' pj where p: "p \<in> set (packageJsonPaths e)"
      and c': "(dependency r, Some c') \<in> set (depsToSearch e w names)"
      and rest: "readJson w p = Some pj" "mergedDependencies pj (dependency r) = Some c'"
        "version r = c'" "path r = siblingModule e p (dependency r)" "path r \<in> existing w"
      by blast
    from only [OF c'] have "c' = c" by simp
    with p rest acc show ?thesis by blast
  next
    assume "dependency r \<in> fst ` {s \<in> set (depsToSearch e w names). \<not> truthy (snd s)}"
    then obtain v where "(dependency r, v) \<in> set (depsToSearch e w names)" "\<not> truthy v"
      by force
    with only [of v] assms(1) show ?thesis by (simp add: truthy_def)
  qed
qed

lemma react_found:
  "getDependencyPaths (posix [''/a/package.json'', ''/b/package.json'']) react_world [''react@17.0.2'']
     = Inr [\<lparr>dependency = ''react'', path = ''/b/node_modules/react'', version = ''17.0.2''\<rparr>]"
  by code_simp

lemma react_spec: "dependencySpecs [''react@17.0.2''] = [(''react'', Some ''17.0.2'')]"
  by code_simp

text \<open>
  The theorem at the request \<^verbatim>\<open>react@17.0.2\<close> with manifests declaring \<^verbatim>\<open>16.0.0\<close>
  and \<^verbatim>\<open>17.0.2\<close>: the second is selected, the first and a range \<^verbatim>\<open>^17.0.2\<close> are
  not accepted.
\<close>

theorem constrained_exact_match_witness:
  "''17.0.2'' \<noteq> [] \<and>
   getDependencyPaths (posix [''/a/package.json'', ''/b/package.json'']) react_world [''react@17.0.2'']
     = Inr [\<lparr>dependency = ''react'', path = ''/b/node_modules/react'', version = ''17.0.2''\<rparr>] \<and>
   (''react'', Some ''17.0.2'') \<in> set (dependencySpecs [''react@17.0.2'']) \<and>
   \<not> accepts (Some ''17.0.2'') (Some ''16.0.0'') \<and>
   \<not> accepts (Some ''17.0.2'') (Some ''^17.0.2'') \<and>
   accepts (Some ''17.0.2'') (Some ''17.0.2'') \<and>
   version \<lparr>dependency = ''react'', path = ''/b/node_modules/react'', version = ''17.0.2''\<rparr> = ''17.0.2''"
proof -
  let ?e = "posix [''/a/package.json'', ''/b/package.json'']"
  let ?r = "\<lparr>dependency = ''react'', path = ''/b/node_modules/react'', version = ''17.0.2''\<rparr>"
  have c: "''17.0.2'' \<noteq> []" by simp
  have r: "?r \<in> set [?r]" by simp
  have s: "(dependency ?r, Some ''17.0.2'') \<in> set (dependencySpecs [''react@17.0.2''])"
    by (simp add: react_spec)
  note th = constrained_exact_match [OF c react_found r s]
  from th [of "Some ''16.0.0''"] th [of "Some ''^17.0.2''"] th [of "Some ''17.0.2''"]
    react_found s
  show ?thesis by simp
qed

lemma installDependency_exdev:
  assumes "localModule e (dependency dep) \<notin> existing (fs st)"
    and "sourceOutsideTarget e (localModule e (dependency dep)) (path dep)"
    and "fs_remove e (localModule e (dependency dep)) = None"
    and "fs_copy e (path dep) (localModule e (dependency dep)) = CopyThrows EXDEV partial"
  shows "installDependency e st dep =
           st\<lparr>fs := (fs st)\<lparr>existing :=
                  (if partial then insert (localModule e (dependency dep)) (existing (fs st))
                   else existing (fs st))\<rparr>,
              trace := trace st @
                [RemoveCall (localModule e (dependency dep)),
                 CopyCall (path dep) (localModule e (dependency dep)),
                 InfoAlreadyInstalled (dependency dep)]\<rparr>"
  using assms by (simp add: installDependency_def caught_def Let_def)

lemma missingDeps_resolved:
  "dep \<in> set resolved \<Longrightarrow> d \<in> set (missingDeps resolved allDependencies) \<Longrightarrow>
     hd (split_on (CHR ''@'') d) \<noteq> dependency dep"
  by (auto simp: missingDeps_def)

section \<open>Cross-device copies\<close>

lemma trace_caught: "\<exists>post. trace (caught err dep st) = trace st @ post"
  by (simp add: caught_def)

lemma trace_installDependency: "\<exists>post. trace (installDependency e st dep) = trace st @ post"
  by (simp add: installDependency_def caught_def Let_def split: option.splits copy_outcome.splits)

lemma trace_install_loop:
  "\<exists>post. trace (foldl (installDependency e) st deps) = trace st @ post"
proof (induction deps arbitrary: st)
  case Nil then show ?case by simp
next
  case (Cons d deps)
  from trace_installDependency [of e st d] obtain p1 where
    p1: "trace (installDependency e st d) = trace st @ p1" by blast
  from Cons.IH [of "installDependency e st d"] obtain p2 where
    "trace (foldl (installDependency e) (installDependency e st d) deps) =
       trace (installDependency e st d) @ p2" by blast
  with p1 show ?case by simp
qed

lemma trace_writePackageJson:
  "\<exists>ev. trace (writePackageJson e st) = trace st @ [ev] \<and>
        (ev = WriteJsonFailed \<or> ev = WriteJson (packageJson st))"
  by (simp add: writePackageJson_def)

lemma trace_installRemaining:
  "\<exists>post. trace (installRemaining e pm missing st) = trace st @ post"
  by (simp add: installRemaining_def)

lemma main_resolved:
  assumes "dependencyNames \<noteq> []"
    and "getDependencyPaths e w dependencyNames = Inr resolved" and "resolved \<noteq> []"
  shows "exit (main e w dependencyNames pm) = Exit 0"
    and "events (main e w dependencyNames pm) =
           trace (copyDependenciesToLocal e w resolved dependencyNames pm)"
    and "final (main e w dependencyNames pm) =
           fs (copyDependenciesToLocal e w resolved dependencyNames pm)"
  using assms by (simp_all add: main_def resolveAndInstall_def Let_def)

text \<open>
  C8. Take a run whose discovery pass resolved the dependencies \<open>before @ dep # rest\<close>
  and in which the copy of \<open>dep\<close> throws \<^verbatim>\<open>EXDEV\<close> in the state \<open>st\<close> the loop of
  \<^verbatim>\<open>copyDependenciesToLocal\<close> has reached after \<open>before\<close>. Then the spinner of \<open>dep\<close>
  ends on the information that it is already installed, not on a failure; the run goes
  on after that report: the remaining dependencies are processed from the state so
  reached, the local manifest is written (or its write failure reported), and the
  program ends with exit code 0; and \<open>dep\<close> is not among the identifiers handed to the
  package manager.
\<close>

theorem exdev_soft_success:
  assumes "dependencyNames \<noteq> []"
    and "getDependencyPaths e w dependencyNames = Inr (before @ dep # rest)"
    and "st = foldl (installDependency e)
                \<lparr>packageJson = initialPackageJson e w, fs = w, trace = []\<rparr> before"
    and "localModule e (dependency dep) \<notin> existing (fs st)"
    and "sourceOutsideTarget e (localModule e (dependency dep)) (path dep)"
    and "fs_remove e (localModule e (dependency dep)) = None"
    and "fs_copy e (path dep) (localModule e (dependency dep)) = CopyThrows EXDEV partial"
  shows "exit (main e w dependencyNames packageManager) = Exit 0 \<and>
         (\<exists>post. events (main e w dependencyNames packageManager) =
                   trace st @ [RemoveCall (localModule e (dependency dep)),
                               CopyCall (path dep) (localModule e (dependency dep)),
                               InfoAlreadyInstalled (dependency dep)] @ post \<and>
                 (WriteJsonFailed \<in> set post \<or>
                  WriteJson (packageJson (foldl (installDependency e)
                               (installDependency e st dep) rest)) \<in> set post)) \<and>
         final (main e w dependencyNames packageManager) =
           fs (writePackageJson e
                 (foldl (installDependency e) (installDependency e st dep) rest)) \<and>
         (\<forall>d \<in> set (missingDeps (before @ dep # rest) dependencyNames).
            hd (split_on (CHR ''@'') d) \<noteq> dependency dep)"
proof -
  let ?resolved = "before @ dep # rest"
  let ?st' = "installDependency e st dep"
  let ?loop = "foldl (installDependency e) ?st' rest"
  have ne: "?resolved \<noteq> []" by simp
  note m = main_resolved [OF assms(1,2) ne, of packageManager]
  have loop: "foldl (installDependency e)
                \<lparr>packageJson = initialPackageJson e w, fs = w, trace = []\<rparr> ?resolved = ?loop"
    by (simp add: assms(3))
  have copy: "copyDependenciesToLocal e w ?resolved dependencyNames packageManager =
      installRemaining e packageManager (missingDeps ?resolved dependencyNames)
        (writePackageJson e ?loop)"
    unfolding copyDependenciesToLocal_def loop ..
  have step: "trace ?st' = trace st @ [RemoveCall (localModule e (dependency dep)),
                               CopyCall (path dep) (localModule e (dependency dep)),
                               InfoAlreadyInstalled (dependency dep)]"
    using installDependency_exdev [OF assms(4-7)] by simp
  from trace_install_loop [of e ?st' rest] obtain p1 where
    p1: "trace ?loop = trace ?st' @ p1" by blast
  from trace_writePackageJson [of e ?loop] obtain ev where
    ev: "trace (writePackageJson e ?loop) = trace ?loop @ [ev]"
      "ev = WriteJsonFailed \<or> ev = WriteJson (packageJson ?loop)" by blast
  from trace_installRemaining [of e packageManager "missingDeps ?resolved dependencyNames"
      "writePackageJson e ?loop"] obtain p2 where
    p2: "trace (installRemaining e packageManager (missingDeps ?resolved dependencyNames)
           (writePackageJson e ?loop)) = trace (writePackageJson e ?loop) @ p2" by blast
  have ev_all: "events (main e w dependencyNames packageManager) =
      trace st @ [RemoveCall (localModule e (dependency dep)),
                  CopyCall (path dep) (localModule e (dependency dep)),
                  InfoAlreadyInstalled (dependency dep)] @ (p1 @ [ev] @ p2)"
    unfolding m(2) copy p2 ev(1) p1 step by simp
  have written: "WriteJsonFailed \<in> set (p1 @ [ev] @ p2) \<or>
      WriteJson (packageJson ?loop) \<in> set (p1 @ [ev] @ p2)"
    using ev(2) by auto
  have fin: "final (main e w dependencyNames packageManager) = fs (writePackageJson e ?loop)"
    unfolding m(3) copy by (simp add: installRemaining_def)
  have miss: "\<forall>d \<in> set (missingDeps ?resolved dependencyNames).
            hd (split_on (CHR ''@'') d) \<noteq> dependency dep"
    using missingDeps_resolved [of dep ?resolved] by simp
  from m(1) ev_all written fin miss show ?thesis by blast
qed

lemma exdev_pre:
  "localModule (cross_device (posix [''/proj/package.json''])) (dependency leftpad_found)
      \<notin> existing (fs leftpad_start) \<and>
   sourceOutsideTarget (cross_device (posix [''/proj/package.json'']))
     (localModule (cross_device (posix [''/proj/package.json''])) (dependency leftpad_found))
     (path leftpad_found) \<and>
   fs_remove (cross_device (posix [''/proj/package.json'']))
     (localModule (cross_device (posix [''/proj/package.json''])) (dependency leftpad_found)) = None \<and>
   fs_copy (cross_device (posix [''/proj/package.json''])) (path leftpad_found)
     (localModule (cross_device (posix [''/proj/package.json''])) (dependency leftpad_found))
     = CopyThrows EXDEV False"
  by code_simp

lemma exdev_run_resolved:
  "getDependencyPaths (cross_device (posix [''/proj/package.json''])) leftpad_world
     [''left-pad'', ''unknown-pkg''] = Inr ([] @ leftpad_found # [])"
  by code_simp

lemma exdev_run_events:
  "events (main (cross_device (posix [''/proj/package.json''])) leftpad_world
             [''left-pad'', ''unknown-pkg''] Npm) =
     [RemoveCall ''/app/node_modules/left-pad'',
      CopyCall ''/proj/node_modules/left-pad'' ''/app/node_modules/left-pad'',
      InfoAlreadyInstalled ''left-pad'',
      WriteJson (declaring []),
      Spawn Npm [''install'', ''unknown-pkg''], SpawnSucceeded]"
  by code_simp

text \<open>
  The theorem at the request \<^verbatim>\<open>left-pad unknown-pkg\<close>, with \<^verbatim>\<open>left-pad\<close> found under
  \<^verbatim>\<open>/proj\<close>, on a platform where every copy throws \<^verbatim>\<open>EXDEV\<close>: after the report the
  manifest is written and \<^verbatim>\<open>unknown-pkg\<close> alone goes to the package manager.
\<close>

theorem exdev_soft_success_witness:
  "getDependencyPaths (cross_device (posix [''/proj/package.json''])) leftpad_world
     [''left-pad'', ''unknown-pkg''] = Inr [leftpad_found] \<and>
   fs_copy (cross_device (posix [''/proj/package.json''])) (path leftpad_found)
     (localModule (cross_device (posix [''/proj/package.json''])) (dependency leftpad_found))
     = CopyThrows EXDEV False \<and>
   exit (main (cross_device (posix [''/proj/package.json''])) leftpad_world
           [''left-pad'', ''unknown-pkg''] Npm) = Exit 0 \<and>
   events (main (cross_device (posix [''/proj/package.json''])) leftpad_world
             [''left-pad'', ''unknown-pkg''] Npm) =
     [RemoveCall ''/app/node_modules/left-pad'',
      CopyCall ''/proj/node_modules/left-pad'' ''/app/node_modules/left-pad'',
      InfoAlreadyInstalled ''left-pad'',
      WriteJson (declaring []),
      Spawn Npm [''install'', ''unknown-pkg''], SpawnSucceeded]"
proof -
  let ?e = "cross_device (posix [''/proj/package.json''])"
  have n: "[''left-pad'', ''unknown-pkg''] \<noteq> []" by simp
  have s: "leftpad_start = foldl (installDependency ?e)
      \<lparr>packageJson = initialPackageJson ?e leftpad_world, fs = leftpad_world, trace = []\<rparr> []"
    by (simp add: leftpad_start_def initialPackageJson_def readLocalPackageJson_def
        cross_device_def posix_def)
  have a: "localModule ?e (dependency leftpad_found) \<notin> existing (fs leftpad_start)"
    and b: "sourceOutsideTarget ?e (localModule ?e (dependency leftpad_found)) (path leftpad_found)"
    and c: "fs_remove ?e (localModule ?e (dependency leftpad_found)) = None"
    and d: "fs_copy ?e (path leftpad_found) (localModule ?e (dependency leftpad_found))
              = CopyThrows EXDEV False"
    using exdev_pre by simp_all
  from exdev_soft_success [OF n exdev_run_resolved s a b c d, of Npm]
  have "exit (main ?e leftpad_world [''left-pad'', ''unknown-pkg''] Npm) = Exit 0" by blast
  with exdev_run_resolved d exdev_run_events show ?thesis by simp
qed

text \<open>
  C10. On that path the in-memory manifest is left as it was: the assignment
  \<^verbatim>\<open>packageJson.dependencies[dep.dependency] = dep.version\<close> stands after the copy and
  is skipped by the exception, so no entry is added for the dependency.
\<close>

theorem exdev_manifest_unchanged:
  assumes "localModule e (dependency dep) \<notin> existing (fs st)"
    and "sourceOutsideTarget e (localModule e (dependency dep)) (path dep)"
    and "fs_remove e (localModule e (dependency dep)) = None"
    and "fs_copy e (path dep) (localModule e (dependency dep)) = CopyThrows EXDEV partial"
  shows "packageJson (installDependency e st dep) = packageJson st"
  using installDependency_exdev [OF assms] by simp

text \<open>
  The theorem at \<^verbatim>\<open>left-pad\<close> with no local manifest: the dependencies mapping stays
  empty.
\<close>

theorem exdev_manifest_unchanged_witness:
  "packageJson (installDependency (cross_device (posix [''/proj/package.json''])) leftpad_start
      leftpad_found) = \<lparr>dependencies = Some [], devDependencies = None, peerDependencies = None\<rparr>"
proof -
  let ?e = "cross_device (posix [''/proj/package.json''])"
  have a: "localModule ?e (dependency leftpad_found) \<notin> existing (fs leftpad_start)"
    and b: "sourceOutsideTarget ?e (localModule ?e (dependency leftpad_found)) (path leftpad_found)"
    and c: "fs_remove ?e (localModule ?e (dependency leftpad_found)) = None"
    and d: "fs_copy ?e (path leftpad_found) (localModule ?e (dependency leftpad_found))
              = CopyThrows EXDEV False"
    using exdev_pre by simp_all
  have p: "packageJson leftpad_start =
             \<lparr>dependencies = Some [], devDependencies = None, peerDependencies = None\<rparr>"
    by code_simp
  from exdev_manifest_unchanged [OF a b c d] p show ?thesis by simp
qed

section \<open>The exit code after a failed fallback\<close>

text \<open>
  C5 does not hold of the code when some dependency was resolved locally. Request
  \<^verbatim>\<open>left-pad unknown-pkg\<close> with \<^verbatim>\<open>left-pad\<close> found under \<^verbatim>\<open>/proj\<close> and a package
  manager that closes with code 1: \<^verbatim>\<open>copyDependenciesToLocal\<close> catches the rejection
  and only logs it, so the run ends with exit code 0. With nothing resolved locally the
  same failure gives exit code 1.
\<close>

theorem fallback_failure_exits_zero:
  "exit (main (failing_package_manager (posix [''/proj/package.json''])) leftpad_world
           [''left-pad'', ''unknown-pkg''] Npm) = Exit 0 \<and>
   events (main (failing_package_manager (posix [''/proj/package.json''])) leftpad_world
           [''left-pad'', ''unknown-pkg''] Npm) =
     [RemoveCall ''/app/node_modules/left-pad'',
      CopyCall ''/proj/node_modules/left-pad'' ''/app/node_modules/left-pad'',
      SucceedInstalled ''left-pad'',
      WriteJson (declaring [(''left-pad'', ''1.3.0'')]),
      Spawn Npm [''install'', ''unknown-pkg''], SpawnFailed] \<and>
   exit (main (failing_package_manager (posix [''/proj/package.json''])) leftpad_world
           [''unknown-pkg''] Npm) = Exit 1"
  by code_simp

section \<open>Dependencies already satisfied locally\<close>

text \<open>
  C4 does not hold of the code in its last part. Request \<^verbatim>\<open>a b\<close> where \<^verbatim>\<open>a\<close> is in
  the local manifest and in the local \<^verbatim>\<open>node_modules\<close>, and \<^verbatim>\<open>b\<close> is found under
  \<^verbatim>\<open>/proj\<close>: \<^verbatim>\<open>a\<close> is left out of the search and is not copied, and for that very
  reason it is not among the resolved names, so the package manager is started with
  \<^verbatim>\<open>install a\<close>.
\<close>

theorem satisfied_dependency_reaches_fallback:
  "satisfiedLocally (posix [''/proj/package.json'']) satisfied_world ''a'' \<and>
   events (main (posix [''/proj/package.json'']) satisfied_world [''a'', ''b''] Npm) =
     [RemoveCall ''/app/node_modules/b'',
      CopyCall ''/proj/node_modules/b'' ''/app/node_modules/b'',
      SucceedInstalled ''b'',
      WriteJson (declaring [(''a'', ''1.0.0''), (''b'', ''2.0.0'')]),
      Spawn Npm [''install'', ''a''], SpawnSucceeded]"
  by code_simp

text \<open>
  C3 does not hold of the code. The first run for \<^verbatim>\<open>left-pad\<close> copies it and records
  it in the local manifest, without starting the package manager. The second run on
  the state the first one left finds the dependency satisfied, searches nothing, takes
  the empty result for "nothing found" and starts the package manager with
  \<^verbatim>\<open>install left-pad\<close>; when that fails the run exits with code 1.
\<close>

theorem second_run_falls_back:
  "events (main (failing_package_manager (posix [''/proj/package.json''])) leftpad_world
             [''left-pad''] Npm) =
     [RemoveCall ''/app/node_modules/left-pad'',
      CopyCall ''/proj/node_modules/left-pad'' ''/app/node_modules/left-pad'',
      SucceedInstalled ''left-pad'',
      WriteJson (declaring [(''left-pad'', ''1.3.0'')])] \<and>
   exit (main (failing_package_manager (posix [''/proj/package.json''])) leftpad_world
             [''left-pad''] Npm) = Exit 0 \<and>
   events (main (failing_package_manager (posix [''/proj/package.json'']))
             (final (main (failing_package_manager (posix [''/proj/package.json'']))
                       leftpad_world [''left-pad''] Npm))
             [''left-pad''] Npm) = [Spawn Npm [''install'', ''left-pad'']] \<and>
   exit (main (failing_package_manager (posix [''/proj/package.json'']))
             (final (main (failing_package_manager (posix [''/proj/package.json'']))
                       leftpad_world [''left-pad''] Npm))
             [''left-pad''] Npm) = Exit 1"
  by code_simp

section \<open>Names in the result\<close>

text \<open>
  C7 does not hold of the code. Request \<^verbatim>\<open>react@17.0.2\<close> with two manifests of one
  batch that both declare \<^verbatim>\<open>react\<close> at \<^verbatim>\<open>17.0.2\<close>: each manifest contributes its own
  match, and the result holds two entries named \<^verbatim>\<open>react\<close>.
\<close>

theorem constrained_match_per_manifest:
  "getDependencyPaths (posix [''/a/package.json'', ''/b/package.json'']) react_twice_world
     [''react@17.0.2''] =
     Inr [\<lparr>dependency = ''react'', path = ''/a/node_modules/react'', version = ''17.0.2''\<rparr>,
          \<lparr>dependency = ''react'', path = ''/b/node_modules/react'', version = ''17.0.2''\<rparr>]"
  by code_simp














lemma candidates_Cons:
  "candidates e w m (p # ps) = candidate e w m p @ candidates e w m ps"
  by (simp add: candidates_def)















lemma set_batchAt: "set (batchAt paths k) \<subseteq> set paths"
  unfolding batchAt_def by (meson set_take_subset set_drop_subset subset_trans)





section \<open>Specs without a version\<close>














end
